theory Spec2Isabelle
  imports Complex_Main "HOL-Library.Word"
begin

unbundle bit_operations_syntax

section \<open>Machine integer types\<close>

type_synonym u64 = "64 word"
type_synonym u32 = "32 word"

section \<open>CPU spin workload (core/cpu_spin.c)\<close>

text \<open>
  The body shared by both kernels, one pass of
  \<^verbatim>\<open>for (uint64_t i = 0; i < iterations; i++) { result += i; result ^= (i << 1); result *= 3; }\<close>
  started at counter \<open>i\<close> with accumulator \<open>result\<close>. All arithmetic is on
  \<open>uint64_t\<close> and wraps.
\<close>

function spin_loop :: "u64 \<Rightarrow> u64 \<Rightarrow> u64 \<Rightarrow> u64" where
  "spin_loop iterations i result =
     (if i < iterations
      then spin_loop iterations (i + 1) (((result + i) XOR push_bit 1 i) * 3)
      else result)"
  by pat_completeness auto
termination
proof (relation "measure (\<lambda>(iterations, i, result). unat iterations - unat i)")
  show "wf (measure (\<lambda>(iterations :: u64, i :: u64, result :: u64). unat iterations - unat i))"
    by simp
next
  fix iterations i result :: u64
  assume lt: "i < iterations"
  then have "unat i < unat iterations"
    by (simp add: word_less_nat_alt)
  moreover have "unat iterations < 2 ^ 64"
    using unsigned_less [of iterations] by simp
  ultimately have "unat i + unat (1 :: u64) < 2 ^ LENGTH(64)"
    by simp
  then have "unat (i + 1) = unat i + 1"
    by (simp add: unat_add_lem [THEN iffD1])
  with lt show "((iterations, i + 1, ((result + i) XOR push_bit 1 i) * 3), (iterations, i, result))
      \<in> measure (\<lambda>(iterations, i, result). unat iterations - unat i)"
    by (simp add: word_less_nat_alt)
qed

declare spin_loop.simps [simp del]

definition cpu_spin :: "u64 \<Rightarrow> u64" where
  "cpu_spin iterations = spin_loop iterations 0 0"

text \<open>
  The outer loop of \<open>cpu_spin_long\<close>:
  \<^verbatim>\<open>for (uint32_t phase = 0; phase < phases; phase++) { <inner loop from i = 0> }\<close>
  The accumulator is carried from one phase into the next.
\<close>

function phase_loop :: "u64 \<Rightarrow> u32 \<Rightarrow> u32 \<Rightarrow> u64 \<Rightarrow> u64" where
  "phase_loop iterations phases phase result =
     (if phase < phases
      then phase_loop iterations phases (phase + 1) (spin_loop iterations 0 result)
      else result)"
  by pat_completeness auto
termination
proof (relation "measure (\<lambda>(iterations, phases, phase, result). unat phases - unat phase)")
  show "wf (measure (\<lambda>(iterations :: u64, phases :: u32, phase :: u32, result :: u64).
      unat phases - unat phase))"
    by simp
next
  fix iterations :: u64 and phases phase :: u32 and result :: u64
  assume lt: "phase < phases"
  then have "unat phase < unat phases"
    by (simp add: word_less_nat_alt)
  moreover have "unat phases < 2 ^ 32"
    using unsigned_less [of phases] by simp
  ultimately have "unat phase + unat (1 :: u32) < 2 ^ LENGTH(32)"
    by simp
  then have "unat (phase + 1) = unat phase + 1"
    by (simp add: unat_add_lem [THEN iffD1])
  with lt show "((iterations, phases, phase + 1, spin_loop iterations 0 result),
      (iterations, phases, phase, result))
      \<in> measure (\<lambda>(iterations, phases, phase, result). unat phases - unat phase)"
    by (simp add: word_less_nat_alt)
qed

declare phase_loop.simps [simp del]

definition cpu_spin_long :: "u64 \<Rightarrow> u32 \<Rightarrow> u64" where
  "cpu_spin_long iterations phases = phase_loop iterations phases 0 0"

section \<open>Hardware performance counters (core/perf_counters.c)\<close>

text \<open>
  The six slots of the fixed panel, in the order in which every function of the file
  walks them.
\<close>

datatype perf_event =
  HW_INSTRUCTIONS | HW_CPU_CYCLES | HW_CACHE_L1D_READ_MISS
  | HW_CACHE_MISSES | HW_BRANCH_INSTRUCTIONS | HW_BRANCH_MISSES

definition all_events :: "perf_event list" where
  "all_events = [HW_INSTRUCTIONS, HW_CPU_CYCLES, HW_CACHE_L1D_READ_MISS,
                 HW_CACHE_MISSES, HW_BRANCH_INSTRUCTIONS, HW_BRANCH_MISSES]"

text \<open>\<open>perf_counters_t\<close>. File descriptors are C \<open>int\<close>; only their sign is used.\<close>

record perf_counters_t =
  fd_instructions :: int
  fd_cycles :: int
  fd_l1_dcache_misses :: int
  fd_llc_misses :: int
  fd_branches :: int
  fd_branch_misses :: int
  instructions_start :: u64
  cycles_start :: u64
  l1_misses_start :: u64
  llc_misses_start :: u64
  branches_start :: u64
  branch_misses_start :: u64
  instructions :: u64
  cycles :: u64
  l1_dcache_misses :: u64
  llc_misses :: u64
  branches :: u64
  branch_misses :: u64

text \<open>The system calls the file issues on a counter descriptor, as a trace.\<close>

datatype perf_ioc = PERF_EVENT_IOC_RESET | PERF_EVENT_IOC_ENABLE | PERF_EVENT_IOC_DISABLE

datatype syscall =
  Ioctl int perf_ioc    \<comment> \<open>\<open>ioctl(fd, request, 0)\<close>\<close>
  | Read int nat        \<comment> \<open>\<open>read(fd, &field, count)\<close>\<close>

text \<open>
  \<open>perf_counters_init\<close>. The kernel is a parameter: \<open>open_counter e\<close> is the value
  returned by \<open>perf_event_open\<close> for slot \<open>e\<close> (a descriptor, or negative on failure).
  The structure is cleared first, so nothing of its previous contents survives.
  The result is the return value paired with the structure.
\<close>

definition perf_counters_init :: "(perf_event \<Rightarrow> int) \<Rightarrow> int \<times> perf_counters_t" where
  "perf_counters_init open_counter =
     (let pc = \<lparr> fd_instructions = open_counter HW_INSTRUCTIONS,
                 fd_cycles = open_counter HW_CPU_CYCLES,
                 fd_l1_dcache_misses = open_counter HW_CACHE_L1D_READ_MISS,
                 fd_llc_misses = open_counter HW_CACHE_MISSES,
                 fd_branches = open_counter HW_BRANCH_INSTRUCTIONS,
                 fd_branch_misses = open_counter HW_BRANCH_MISSES,
                 instructions_start = 0, cycles_start = 0, l1_misses_start = 0,
                 llc_misses_start = 0, branches_start = 0, branch_misses_start = 0,
                 instructions = 0, cycles = 0, l1_dcache_misses = 0,
                 llc_misses = 0, branches = 0, branch_misses = 0 \<rparr>
      in if fd_instructions pc < 0 \<or> fd_cycles pc < 0 then (- 1, pc) else (0, pc))"

text \<open>
  One guarded block of \<open>perf_counters_start\<close>:
  \<^verbatim>\<open>if (fd >= 0) { ioctl(fd, PERF_EVENT_IOC_RESET, 0); ioctl(fd, PERF_EVENT_IOC_ENABLE, 0); }\<close>
\<close>

definition start_counter :: "int \<Rightarrow> syscall list" where
  "start_counter fd =
     (if 0 \<le> fd then [Ioctl fd PERF_EVENT_IOC_RESET, Ioctl fd PERF_EVENT_IOC_ENABLE] else [])"

text \<open>\<open>perf_counters_start\<close> leaves the structure alone; its effect is the trace.\<close>

definition perf_counters_start :: "perf_counters_t \<Rightarrow> syscall list" where
  "perf_counters_start pc =
     start_counter (fd_instructions pc) @
     start_counter (fd_cycles pc) @
     start_counter (fd_l1_dcache_misses pc) @
     start_counter (fd_llc_misses pc) @
     start_counter (fd_branches pc) @
     start_counter (fd_branch_misses pc)"

text \<open>
  One guarded block of \<open>perf_counters_stop\<close>:
  \<^verbatim>\<open>if (fd >= 0) { ioctl(fd, PERF_EVENT_IOC_DISABLE, 0);
                 ret = read(fd, &field, sizeof(uint64_t));
                 if (ret != sizeof(uint64_t)) field = 0; }\<close>
  The outcome of the read is a parameter: the returned \<open>ssize_t\<close> and the eight bytes
  the kernel delivers when it delivers all of them. A shorter read overwrites part of
  the field, which the next statement clears. The result is the new field value and
  the system calls issued.
\<close>

definition stop_counter :: "int \<times> u64 \<Rightarrow> int \<Rightarrow> u64 \<Rightarrow> u64 \<times> syscall list" where
  "stop_counter rd fd field =
     (if 0 \<le> fd
      then (if fst rd \<noteq> 8 then 0 else snd rd,
            [Ioctl fd PERF_EVENT_IOC_DISABLE, Read fd 8])
      else (field, []))"

text \<open>\<open>kernel_read e\<close> is the outcome of the read issued for slot \<open>e\<close> in this call.\<close>

definition perf_counters_stop ::
  "(perf_event \<Rightarrow> int \<times> u64) \<Rightarrow> perf_counters_t \<Rightarrow> perf_counters_t \<times> syscall list" where
  "perf_counters_stop kernel_read pc =
     (let (v1, t1) = stop_counter (kernel_read HW_INSTRUCTIONS) (fd_instructions pc) (instructions pc);
          (v2, t2) = stop_counter (kernel_read HW_CPU_CYCLES) (fd_cycles pc) (cycles pc);
          (v3, t3) = stop_counter (kernel_read HW_CACHE_L1D_READ_MISS)
                       (fd_l1_dcache_misses pc) (l1_dcache_misses pc);
          (v4, t4) = stop_counter (kernel_read HW_CACHE_MISSES) (fd_llc_misses pc) (llc_misses pc);
          (v5, t5) = stop_counter (kernel_read HW_BRANCH_INSTRUCTIONS) (fd_branches pc) (branches pc);
          (v6, t6) = stop_counter (kernel_read HW_BRANCH_MISSES)
                       (fd_branch_misses pc) (branch_misses pc)
      in (pc\<lparr> instructions := v1, cycles := v2, l1_dcache_misses := v3,
               llc_misses := v4, branches := v5, branch_misses := v6 \<rparr>,
          t1 @ t2 @ t3 @ t4 @ t5 @ t6))"

text \<open>Slot accessors, used to state properties once for the whole panel.\<close>

fun event_fd :: "perf_event \<Rightarrow> perf_counters_t \<Rightarrow> int" where
  "event_fd HW_INSTRUCTIONS pc = fd_instructions pc"
| "event_fd HW_CPU_CYCLES pc = fd_cycles pc"
| "event_fd HW_CACHE_L1D_READ_MISS pc = fd_l1_dcache_misses pc"
| "event_fd HW_CACHE_MISSES pc = fd_llc_misses pc"
| "event_fd HW_BRANCH_INSTRUCTIONS pc = fd_branches pc"
| "event_fd HW_BRANCH_MISSES pc = fd_branch_misses pc"

fun event_value :: "perf_event \<Rightarrow> perf_counters_t \<Rightarrow> u64" where
  "event_value HW_INSTRUCTIONS pc = instructions pc"
| "event_value HW_CPU_CYCLES pc = cycles pc"
| "event_value HW_CACHE_L1D_READ_MISS pc = l1_dcache_misses pc"
| "event_value HW_CACHE_MISSES pc = llc_misses pc"
| "event_value HW_BRANCH_INSTRUCTIONS pc = branches pc"
| "event_value HW_BRANCH_MISSES pc = branch_misses pc"

text \<open>
  The derived columns of \<open>perf_counters_print_csv\<close>:
  \<^verbatim>\<open>double ipc = pc->cycles > 0 ? (double)pc->instructions / pc->cycles : 0.0;
  double branch_miss_rate = pc->branches > 0 ? (double)pc->branch_misses / pc->branches : 0.0;\<close>
  The double-precision arithmetic is a parameter: \<open>to_double\<close> is the conversion of a
  \<open>uint64_t\<close>, \<open>fdiv\<close> the division and \<open>fzero\<close> the constant \<open>0.0\<close>. The comparison
  is on the unsigned integer.
\<close>

definition csv_ipc :: "(u64 \<Rightarrow> 'f) \<Rightarrow> ('f \<Rightarrow> 'f \<Rightarrow> 'f) \<Rightarrow> 'f \<Rightarrow> perf_counters_t \<Rightarrow> 'f" where
  "csv_ipc to_double fdiv fzero pc =
     (if cycles pc > 0 then fdiv (to_double (instructions pc)) (to_double (cycles pc)) else fzero)"

definition csv_branch_miss_rate ::
  "(u64 \<Rightarrow> 'f) \<Rightarrow> ('f \<Rightarrow> 'f \<Rightarrow> 'f) \<Rightarrow> 'f \<Rightarrow> perf_counters_t \<Rightarrow> 'f" where
  "csv_branch_miss_rate to_double fdiv fzero pc =
     (if branches pc > 0 then fdiv (to_double (branch_misses pc)) (to_double (branches pc))
      else fzero)"

section \<open>Reading text: \<open>fgets\<close>, \<open>sscanf\<close>, \<open>strtoul\<close>\<close>

text \<open>
  \<open>fgets(buf, n, f)\<close> stores at most \<open>n - 1\<close> characters and stops after a newline.
  \<open>read_line k s\<close> splits the unread input \<open>s\<close> into the characters stored and the
  input left; \<open>fgets\<close> returns \<open>None\<close> (the C \<open>NULL\<close>) at end of file.
\<close>

fun read_line :: "nat \<Rightarrow> string \<Rightarrow> string \<times> string" where
  "read_line 0 s = ([], s)"
| "read_line (Suc k) [] = ([], [])"
| "read_line (Suc k) (c # cs) =
     (if c = CHR 0x0A then ([c], cs)
      else (let (l, r) = read_line k cs in (c # l, r)))"

definition fgets :: "nat \<Rightarrow> string \<Rightarrow> (string \<times> string) option" where
  "fgets n s = (if s = [] then None else Some (read_line (n - 1) s))"

definition isspace_c :: "char \<Rightarrow> bool" where
  "isspace_c c \<longleftrightarrow> c \<in> set [CHR '' '', CHR 0x09, CHR 0x0A, CHR 0x0B, CHR 0x0C, CHR 0x0D]"

definition isdigit_c :: "char \<Rightarrow> bool" where
  "isdigit_c c \<longleftrightarrow> 48 \<le> (of_char c :: nat) \<and> (of_char c :: nat) \<le> 57"

definition digit_val :: "char \<Rightarrow> nat" where
  "digit_val c = of_char c - 48"

fun scan_digits :: "nat \<Rightarrow> string \<Rightarrow> nat \<times> string" where
  "scan_digits acc [] = (acc, [])"
| "scan_digits acc (c # cs) =
     (if isdigit_c c then scan_digits (acc * 10 + digit_val c) cs else (acc, c # cs))"

text \<open>
  The subject sequence shared by the \<open>%d\<close> and \<open>%lu\<close> conversions and by \<open>strtoul\<close>:
  white space is skipped, then an optional sign, then at least one decimal digit.
  The result is the sign, the magnitude and the input left, or \<open>None\<close> when there is
  no digit.
\<close>

definition scan_number :: "string \<Rightarrow> (bool \<times> nat \<times> string) option" where
  "scan_number s =
     (let s1 = dropWhile isspace_c s;
          (neg, s2) = (case s1 of [] \<Rightarrow> (False, [])
                       | c # r \<Rightarrow> if c = CHR ''-'' then (True, r)
                                  else if c = CHR ''+'' then (False, r)
                                  else (False, s1))
      in case s2 of [] \<Rightarrow> None
         | c # _ \<Rightarrow> if isdigit_c c
                    then (let (n, rest) = scan_digits 0 s2 in Some (neg, n, rest))
                    else None)"

text \<open>
  Conversion to \<open>unsigned long\<close> as \<open>strtoul\<close> does it: a magnitude that does not fit
  gives \<open>ULONG_MAX\<close>, a minus sign negates in the unsigned type.
\<close>

definition to_ulong :: "bool \<Rightarrow> nat \<Rightarrow> u64" where
  "to_ulong neg n = (if 2 ^ 64 \<le> n then - 1 else if neg then - of_nat n else of_nat n)"

text \<open>
  \<open>strtoul(p, &p, 10)\<close>: the value and the new \<open>p\<close>; with no digits the value is 0 and
  \<open>p\<close> stays.
\<close>

definition strtoul :: "string \<Rightarrow> u64 \<times> string" where
  "strtoul s = (case scan_number s of None \<Rightarrow> (0, s)
                | Some (neg, n, rest) \<Rightarrow> (to_ulong neg n, rest))"

text \<open>
  \<open>sscanf(s, "%lu", &x)\<close>: \<open>Some\<close> of the value stored when the conversion succeeds
  (return value 1), \<open>None\<close> when nothing is stored. For a number that does not fit C
  leaves the behaviour undefined; the model converts as \<open>strtoul\<close> does.
\<close>

definition sscanf_lu :: "string \<Rightarrow> u64 option" where
  "sscanf_lu s = (case scan_number s of None \<Rightarrow> None
                  | Some (neg, n, rest) \<Rightarrow> Some (to_ulong neg n))"

text \<open>
  The \<open>%d\<close> conversion: the mathematical value and the input left. Whether the value
  fits an \<open>int\<close> is checked by the caller of the conversion.
\<close>

definition scan_d :: "string \<Rightarrow> (int \<times> string) option" where
  "scan_d s = (case scan_number s of None \<Rightarrow> None
               | Some (neg, n, rest) \<Rightarrow> Some (if neg then - int n else int n, rest))"

section \<open>Metric record (metrics.h and its implementation)\<close>

record workload_metrics_t =
  timestamp_ns :: u64
  runtime_ns :: u64
  voluntary_ctxt_switches :: u64
  nonvoluntary_ctxt_switches :: u64
  minor_page_faults :: u64
  major_page_faults :: u64
  start_cpu :: int
  end_cpu :: int

text \<open>
  What \<open>clock_gettime(CLOCK_MONOTONIC_RAW, &ts)\<close> leaves behind: its return value and
  the contents of \<open>ts\<close> afterwards. \<open>ts\<close> is an uninitialised local, so after a failed
  call its contents are whatever the stack held.
\<close>

record clock_result =
  clock_rc :: int
  tv_sec :: int
  tv_nsec :: int

text \<open>
  \<^verbatim>\<open>clock_gettime(CLOCK_MONOTONIC_RAW, &ts);
  return (uint64_t)ts.tv_sec * 1000000000ULL + ts.tv_nsec;\<close>
  The return value of \<open>clock_gettime\<close> is not looked at.
\<close>

definition get_timestamp_ns :: "clock_result \<Rightarrow> u64" where
  "get_timestamp_ns c = word_of_int (tv_sec c) * 1000000000 + word_of_int (tv_nsec c)"

text \<open>
  The body of the \<open>while (fgets(line, sizeof(line), f))\<close> loop of \<open>read_ctxt_switches\<close>,
  on the unread part of \<open>/proc/self/status\<close>. The pair carried along is the current
  contents of \<open>*voluntary\<close> and \<open>*nonvoluntary\<close>; a line that does not match, or whose
  number does not scan, leaves both as they are.
\<close>

function scan_status :: "string \<Rightarrow> u64 \<times> u64 \<Rightarrow> u64 \<times> u64" where
  "scan_status content (voluntary, nonvoluntary) =
     (case fgets 256 content of
        None \<Rightarrow> (voluntary, nonvoluntary)
      | Some (line, rest) \<Rightarrow>
          if take 24 line = ''voluntary_ctxt_switches:''
          then scan_status rest
                 (case sscanf_lu (drop 24 line) of None \<Rightarrow> voluntary | Some v \<Rightarrow> v,
                  nonvoluntary)
          else if take 27 line = ''nonvoluntary_ctxt_switches:''
          then scan_status rest
                 (voluntary,
                  case sscanf_lu (drop 27 line) of None \<Rightarrow> nonvoluntary | Some v \<Rightarrow> v)
          else scan_status rest (voluntary, nonvoluntary))"
  by pat_completeness auto
termination
proof (relation "measure (\<lambda>(content, counters). length content)")
  show "wf (measure (\<lambda>(content :: string, counters :: u64 \<times> u64). length content))"
    by simp
next
  have shorter: "length (snd (read_line (Suc k) s)) < length s" if "s \<noteq> []" for k s
    using that
  proof (induction k arbitrary: s)
    case 0
    then show ?case by (cases s) (auto split: prod.splits)
  next
    case (Suc k)
    then show ?case
    proof (cases s)
      case Nil
      with Suc.prems show ?thesis by simp
    next
      case (Cons c cs)
      show ?thesis
      proof (cases cs)
        case Nil
        with Cons show ?thesis by (auto split: prod.splits)
      next
        case (Cons d ds)
        with Suc.IH [of cs] \<open>s = c # cs\<close> show ?thesis
          by (auto split: prod.splits)
      qed
    qed
  qed
  have consumed: "length rest < length content"
    if "fgets 256 content = Some (line, rest)" for content line rest
  proof -
    from that have ne: "content \<noteq> []" and "read_line 255 content = (line, rest)"
      by (auto simp: fgets_def split: if_splits)
    then have "snd (read_line (Suc 254) content) = rest"
      by simp
    with shorter [OF ne, of 254] show ?thesis
      by simp
  qed
  fix content :: string and voluntary nonvoluntary :: u64 and x2 line rest
  assume "fgets 256 content = Some x2" "(line, rest) = x2"
  then have "fgets 256 content = Some (line, rest)"
    by simp
  then have "length rest < length content"
    by (rule consumed)
  then show
    "((rest, case sscanf_lu (drop 24 line) of None \<Rightarrow> voluntary | Some v \<Rightarrow> v, nonvoluntary),
      content, voluntary, nonvoluntary) \<in> measure (\<lambda>(content, counters). length content)"
    "((rest, voluntary, case sscanf_lu (drop 27 line) of None \<Rightarrow> nonvoluntary | Some v \<Rightarrow> v),
      content, voluntary, nonvoluntary) \<in> measure (\<lambda>(content, counters). length content)"
    "((rest, voluntary, nonvoluntary), content, voluntary, nonvoluntary)
      \<in> measure (\<lambda>(content, counters). length content)"
    by simp_all
qed

declare scan_status.simps [simp del]

text \<open>
  \<open>read_ctxt_switches\<close>. \<open>status\<close> is the content of \<open>/proc/self/status\<close>, or \<open>None\<close>
  when \<open>fopen\<close> fails; \<open>old\<close> is what the two output locations held before the call.
\<close>

definition read_ctxt_switches :: "string option \<Rightarrow> u64 \<times> u64 \<Rightarrow> u64 \<times> u64" where
  "read_ctxt_switches status old =
     (case status of None \<Rightarrow> (0, 0) | Some content \<Rightarrow> scan_status content old)"

text \<open>
  One round of the field-skipping loop of \<open>read_page_faults\<close>:
  \<^verbatim>\<open>while (*p && *p != ' ') p++;  if (*p) p++;\<close>
\<close>

definition skip_field :: "string \<Rightarrow> string" where
  "skip_field p = (let q = dropWhile (\<lambda>c. c \<noteq> CHR '' '') p in if q = [] then q else tl q)"

text \<open>
  \<open>read_page_faults\<close>. \<open>stat\<close> is the content of \<open>/proc/self/stat\<close>, or \<open>None\<close> when
  \<open>fopen\<close> fails. Both output locations are always written.
\<close>

definition read_page_faults :: "string option \<Rightarrow> u64 \<times> u64" where
  "read_page_faults stat =
     (case stat of
        None \<Rightarrow> (0, 0)
      | Some content \<Rightarrow>
          (case fgets 1024 content of
             None \<Rightarrow> (0, 0)
           | Some (buf, rest) \<Rightarrow>
               (let p = (skip_field ^^ 9) buf
                in if p = [] then (0, 0)
                   else (let (minflt, p1) = strtoul p;
                             p2 = (if p1 = [] then p1 else tl p1);
                             p3 = skip_field p2;
                             (majflt, p4) = strtoul p3
                         in (minflt, majflt)))))"

text \<open>
  What one boundary call observes: the clock, the two pseudo-files, the value of
  \<open>sched_getcpu()\<close>, and (for \<open>metrics_finish\<close>) the indeterminate initial contents of
  its uninitialised locals \<open>vol_ctxt\<close> and \<open>nonvol_ctxt\<close>.
\<close>

record probe =
  clock :: clock_result
  status_file :: "string option"
  stat_file :: "string option"
  cpu :: int
  stack_vol :: u64
  stack_nonvol :: u64

definition metrics_init :: "probe \<Rightarrow> workload_metrics_t" where
  "metrics_init env =
     (let ts = get_timestamp_ns (clock env);
          (vol, nonvol) = read_ctxt_switches (status_file env) (0, 0);
          (minor, major) = read_page_faults (stat_file env)
      in \<lparr> timestamp_ns = ts, runtime_ns = 0,
           voluntary_ctxt_switches = vol, nonvoluntary_ctxt_switches = nonvol,
           minor_page_faults = minor, major_page_faults = major,
           start_cpu = cpu env, end_cpu = 0 \<rparr>)"

definition metrics_finish :: "probe \<Rightarrow> workload_metrics_t \<Rightarrow> workload_metrics_t" where
  "metrics_finish env m =
     (let end_ts = get_timestamp_ns (clock env);
          (vol_ctxt, nonvol_ctxt) =
             read_ctxt_switches (status_file env) (stack_vol env, stack_nonvol env);
          (minor_pf, major_pf) = read_page_faults (stat_file env)
      in m\<lparr> runtime_ns := end_ts - timestamp_ns m,
             voluntary_ctxt_switches := vol_ctxt - voluntary_ctxt_switches m,
             nonvoluntary_ctxt_switches := nonvol_ctxt - nonvoluntary_ctxt_switches m,
             minor_page_faults := minor_pf - minor_page_faults m,
             major_page_faults := major_pf - major_page_faults m,
             end_cpu := cpu env,
             timestamp_ns := end_ts \<rparr>)"

text \<open>
  \<open>metrics_print_csv\<close>: the numbers printed, in column order (\<open>%lu\<close> six times, then
  \<open>%d\<close> twice).
\<close>

definition metrics_print_csv :: "workload_metrics_t \<Rightarrow> int list" where
  "metrics_print_csv m =
     [uint (timestamp_ns m), uint (runtime_ns m),
      uint (voluntary_ctxt_switches m), uint (nonvoluntary_ctxt_switches m),
      uint (minor_page_faults m), uint (major_page_faults m),
      start_cpu m, end_cpu m]"

section \<open>NUMA controller: \<open>numa_node_to_cpus\<close>\<close>

text \<open>
  \<open>sscanf(buffer, "%d-%d", &start, &end)\<close> and \<open>sscanf(buffer, "%d", &start)\<close>: the
  values stored, in order. The value returned by \<open>sscanf\<close> is the number of them.
\<close>

definition sscanf_d_dash_d :: "string \<Rightarrow> int list" where
  "sscanf_d_dash_d s =
     (case scan_d s of
        None \<Rightarrow> []
      | Some (a, r) \<Rightarrow>
          (case r of
             [] \<Rightarrow> [a]
           | c # r' \<Rightarrow>
               if c = CHR ''-''
               then (case scan_d r' of None \<Rightarrow> [a] | Some (b, r'') \<Rightarrow> [a, b])
               else [a]))"

definition sscanf_d :: "string \<Rightarrow> int list" where
  "sscanf_d s = (case scan_d s of None \<Rightarrow> [] | Some (a, r) \<Rightarrow> [a])"

text \<open>The values an \<open>int\<close> can hold.\<close>

definition int_range :: "int \<Rightarrow> bool" where
  "int_range v \<longleftrightarrow> - (2 ^ 31) \<le> v \<and> v < 2 ^ 31"

text \<open>
  \<^verbatim>\<open>for (int i = start; i <= end && i < 64; i++) mask |= (1ULL << i);\<close>
  from counter \<open>i\<close> and the mask so far (\<open>cpu_mask\<close>). A shift by a negative count is undefined in C:
  the model returns \<open>None\<close> there.
\<close>

function cpu_range_mask :: "int \<Rightarrow> int \<Rightarrow> u64 \<Rightarrow> u64 option" where
  "cpu_range_mask i last_cpu cpu_mask =
     (if i \<le> last_cpu \<and> i < 64
      then (if i < 0 then None else cpu_range_mask (i + 1) last_cpu (cpu_mask OR push_bit (nat i) 1))
      else Some cpu_mask)"
  by pat_completeness auto
termination
  by (relation "measure (\<lambda>(i, last_cpu, cpu_mask). nat (64 - i))") auto

declare cpu_range_mask.simps [simp del]

text \<open>
  The parsing half of \<open>numa_node_to_cpus\<close>, on the line read into \<open>buffer\<close>. \<open>None\<close>
  stands for behaviour that C leaves undefined (a number outside \<open>int\<close>, a negative
  shift count); \<open>Some\<close> carries the mask returned.
\<close>

definition parse_cpulist :: "string \<Rightarrow> u64 option" where
  "parse_cpulist buffer =
     (case sscanf_d_dash_d buffer of
        [start, last_cpu] \<Rightarrow>
          if int_range start \<and> int_range last_cpu then cpu_range_mask start last_cpu 0 else None
      | _ \<Rightarrow>
          (case sscanf_d buffer of
             [start] \<Rightarrow>
               if \<not> int_range start then None
               else if start < 64
               then (if start < 0 then None else Some (0 OR push_bit (nat start) 1))
               else Some 0
           | _ \<Rightarrow> Some 0))"

text \<open>
  \<open>numa_node_to_cpus\<close>. \<open>cpulist\<close> is the content of the node's \<open>cpulist\<close> file, or
  \<open>None\<close> when \<open>fopen\<close> fails; one line of it is read into a buffer of 256 characters.
\<close>

definition numa_node_to_cpus :: "string option \<Rightarrow> u64 option" where
  "numa_node_to_cpus cpulist =
     (case cpulist of
        None \<Rightarrow> Some 0
      | Some content \<Rightarrow>
          (case fgets 256 content of
             None \<Rightarrow> Some 0
           | Some (buffer, rest) \<Rightarrow> parse_cpulist buffer))"

text \<open>
  The file format the kernel writes, for stating what is parsed: entries separated
  by commas, each a single CPU \<open>A\<close> or a range \<open>A-B\<close> in decimal, and a final newline.
\<close>

datatype cpulist_entry = Single nat | Range nat nat

definition digit_char :: "nat \<Rightarrow> char" where
  "digit_char d = ''0123456789'' ! d"

fun dec :: "nat \<Rightarrow> string" where
  "dec n = (if n < 10 then [digit_char n] else dec (n div 10) @ [digit_char (n mod 10)])"

declare dec.simps [simp del]

fun render_entry :: "cpulist_entry \<Rightarrow> string" where
  "render_entry (Single a) = dec a"
| "render_entry (Range a b) = dec a @ ''-'' @ dec b"

fun render_cpulist :: "cpulist_entry list \<Rightarrow> string" where
  "render_cpulist [] = [CHR 0x0A]"
| "render_cpulist [e] = render_entry e @ [CHR 0x0A]"
| "render_cpulist (e # es) = render_entry e @ '','' @ render_cpulist es"

fun cpu_in_entry :: "nat \<Rightarrow> cpulist_entry \<Rightarrow> bool" where
  "cpu_in_entry i (Single a) \<longleftrightarrow> i = a"
| "cpu_in_entry i (Range a b) \<longleftrightarrow> a \<le> i \<and> i \<le> b"

fun entry_bound :: "cpulist_entry \<Rightarrow> nat" where
  "entry_bound (Single a) = a"
| "entry_bound (Range a b) = max a b"

section \<open>Random memory access workload (core/memory_random.c)\<close>

text \<open>
  Slots and indices are \<open>uint64_t\<close> and \<open>size_t\<close> in the source. Every value the
  kernel stores is an index below \<open>count = size / 8\<close>, and the only arithmetic is
  \<open>i + 1\<close> below \<open>count\<close>, \<open>rand() % (i + 1)\<close> and \<open>count - 1\<close>, so nothing wraps except
  \<open>count - 1\<close> at \<open>count = 0\<close>, which is written out. They are modelled as \<open>nat\<close>.
  The buffer is the list of its slots; an access outside it is a fault.
\<close>

datatype fault = DivisionByZero | OutOfBounds

text \<open>\<^verbatim>\<open>tmp = indices[i]; indices[i] = indices[j]; indices[j] = tmp;\<close>\<close>

definition swap :: "nat list \<Rightarrow> nat \<Rightarrow> nat \<Rightarrow> nat list" where
  "swap indices i j = indices[i := indices ! j, j := indices ! i]"

text \<open>
  \<^verbatim>\<open>for (size_t i = count - 1; i > 0; i--) { size_t j = rand() % (i + 1); <swap i j> }\<close>
  from counter \<open>i\<close>. \<open>rnd k\<close> is the value of the \<open>k\<close>-th call of \<open>rand()\<close> from here on
  (not negative). Both positions are inside the array: \<open>j \<le> i \<le> count - 1\<close>.
\<close>

fun shuffle_loop :: "(nat \<Rightarrow> nat) \<Rightarrow> nat \<Rightarrow> nat \<Rightarrow> nat list \<Rightarrow> nat list" where
  "shuffle_loop rnd k 0 indices = indices"
| "shuffle_loop rnd k (Suc i) indices =
     shuffle_loop rnd (Suc k) i (swap indices (Suc i) (rnd k mod (Suc i + 1)))"

text \<open>
  \<open>shuffle_indices\<close>: the array is filled with \<open>0, \<dots>, count - 1\<close> and shuffled. With
  \<open>count = 0\<close> the counter starts at \<open>SIZE_MAX\<close> and the first \<open>rand() % (i + 1)\<close>
  divides by zero.
\<close>

definition shuffle_indices :: "(nat \<Rightarrow> nat) \<Rightarrow> nat \<Rightarrow> fault + nat list" where
  "shuffle_indices rnd count =
     (if count = 0 then Inl DivisionByZero
      else Inr (shuffle_loop rnd 0 (count - 1) [0..<count]))"

text \<open>\<open>buffer[i] = v\<close>.\<close>

definition store :: "nat list \<Rightarrow> nat \<Rightarrow> nat \<Rightarrow> fault + nat list" where
  "store buffer i v = (if i < length buffer then Inr (buffer[i := v]) else Inl OutOfBounds)"

text \<open>
  \<^verbatim>\<open>for (size_t i = 0; i < count - 1; i++) buffer[indices[i]] = indices[i + 1];\<close>
  from counter \<open>i\<close>, for \<open>count > 0\<close>.
\<close>

function link_chain :: "nat list \<Rightarrow> nat \<Rightarrow> nat \<Rightarrow> nat list \<Rightarrow> fault + nat list" where
  "link_chain indices count i buffer =
     (if i < count - 1
      then (case store buffer (indices ! i) (indices ! (i + 1)) of
              Inl f \<Rightarrow> Inl f
            | Inr b \<Rightarrow> link_chain indices count (i + 1) b)
      else Inr buffer)"
  by pat_completeness auto
termination
  by (relation "measure (\<lambda>(indices, count, i, buffer). count - 1 - i)") auto

declare link_chain.simps [simp del]

text \<open>
  The setup half of \<open>memory_random_chase\<close> after a successful \<open>malloc\<close>: shuffle, link
  each slot to its successor, close the chain with
  \<open>buffer[indices[count - 1]] = indices[0]\<close>.
\<close>

definition build_chain :: "(nat \<Rightarrow> nat) \<Rightarrow> nat list \<Rightarrow> nat \<Rightarrow> fault + nat list" where
  "build_chain rnd buffer count =
     (case shuffle_indices rnd count of
        Inl f \<Rightarrow> Inl f
      | Inr indices \<Rightarrow>
          (case link_chain indices count 0 buffer of
             Inl f \<Rightarrow> Inl f
           | Inr b \<Rightarrow> store b (indices ! (count - 1)) (indices ! 0)))"

text \<open>
  \<^verbatim>\<open>for (uint64_t i = 0; i < iterations; i++) index = buffer[index];\<close>
  The result is the list of slots read, in order, and the final \<open>index\<close>.
\<close>

fun chase :: "nat list \<Rightarrow> nat \<Rightarrow> nat \<Rightarrow> fault + (nat list \<times> nat)" where
  "chase buffer index 0 = Inr ([], index)"
| "chase buffer index (Suc n) =
     (if index < length buffer
      then (case chase buffer (buffer ! index) n of
              Inl f \<Rightarrow> Inl f
            | Inr (visited, r) \<Rightarrow> Inr (index # visited, r))
      else Inl OutOfBounds)"

text \<open>Calls of the allocator, as a trace.\<close>

datatype heap_event = Malloc nat | Free

text \<open>
  \<open>memory_random_chase(buffer, size, iterations)\<close>, with \<open>nbytes\<close> for the source's
  \<open>size\<close>. \<open>malloc_ok\<close> tells whether
  \<open>malloc\<close> returns a block. The result is the allocator calls made and either a fault
  or the buffer afterwards, the slots read by the chase and the value returned.
  When \<open>malloc\<close> fails the function returns 0 and leaves the buffer alone.
\<close>

definition memory_random_chase ::
  "(nat \<Rightarrow> nat) \<Rightarrow> bool \<Rightarrow> nat list \<Rightarrow> nat \<Rightarrow> nat
     \<Rightarrow> heap_event list \<times> (fault + (nat list \<times> nat list \<times> nat))" where
  "memory_random_chase rnd malloc_ok buffer nbytes iterations =
     (let count = nbytes div 8
      in if \<not> malloc_ok then ([Malloc (count * 8)], Inr (buffer, [], 0))
         else (case build_chain rnd buffer count of
                 Inl f \<Rightarrow> ([Malloc (count * 8)], Inl f)
               | Inr b \<Rightarrow>
                   ([Malloc (count * 8), Free],
                    case chase b 0 iterations of
                      Inl f \<Rightarrow> Inl f
                    | Inr (visited, r) \<Rightarrow> Inr (b, visited, r))))"

section \<open>NUMA locality scenario (scenarios/numa_locality.c)\<close>

text \<open>
  What one run of the measurement loop of \<open>main\<close> does, as far as the allocator and
  the boundaries of the measured region go:
  \<^verbatim>\<open>metrics_init(&metrics);
  uint64_t result = memory_random_chase(local_buffer, BUFFER_SIZE, ITERATIONS);
  metrics_finish(&metrics);\<close>
\<close>

datatype run_event = MetricsInit | Heap heap_event | MetricsFinish

definition BUFFER_SIZE :: nat where
  "BUFFER_SIZE = 64 * (1024 * 1024)"

definition ITERATIONS :: nat where
  "ITERATIONS = 1000000"

definition numa_locality_run :: "(nat \<Rightarrow> nat) \<Rightarrow> bool \<Rightarrow> nat list \<Rightarrow> run_event list" where
  "numa_locality_run rnd malloc_ok local_buffer =
     [MetricsInit]
     @ map Heap (fst (memory_random_chase rnd malloc_ok local_buffer BUFFER_SIZE ITERATIONS))
     @ [MetricsFinish]"

text \<open>
  The events strictly between \<open>metrics_init\<close> and the next \<open>metrics_finish\<close>, and whether
  none of them is a \<open>malloc\<close>.
\<close>

fun measured_region :: "run_event list \<Rightarrow> run_event list" where
  "measured_region [] = []"
| "measured_region (MetricsInit # es) = takeWhile (\<lambda>e. e \<noteq> MetricsFinish) es"
| "measured_region (e # es) = measured_region es"

fun is_malloc :: "run_event \<Rightarrow> bool" where
  "is_malloc (Heap (Malloc n)) = True"
| "is_malloc e = False"

definition allocation_free :: "run_event list \<Rightarrow> bool" where
  "allocation_free tr \<longleftrightarrow> \<not> list_ex is_malloc (measured_region tr)"

section \<open>Concrete inputs\<close>

text \<open>Named inputs at which the theorems below are evaluated.\<close>

definition none_open :: "perf_event \<Rightarrow> int" where
  "none_open e = - 1"

definition only_branch_misses_opens :: "perf_event \<Rightarrow> int" where
  "only_branch_misses_opens e = (if e = HW_BRANCH_MISSES then 3 else - 1)"

definition all_open :: "perf_event \<Rightarrow> int" where
  "all_open e = (case e of HW_INSTRUCTIONS \<Rightarrow> 3 | HW_CPU_CYCLES \<Rightarrow> 4
      | HW_CACHE_L1D_READ_MISS \<Rightarrow> 5 | HW_CACHE_MISSES \<Rightarrow> 6
      | HW_BRANCH_INSTRUCTIONS \<Rightarrow> 7 | HW_BRANCH_MISSES \<Rightarrow> 8)"

text \<open>The read of the cycle counter returns 4 bytes; every other read is complete.\<close>

definition short_cycles_read :: "perf_event \<Rightarrow> int \<times> u64" where
  "short_cycles_read e = (if e = HW_CPU_CYCLES then (4, 77) else (8, 1000))"

text \<open>Exact real arithmetic standing in for the double-precision operations.\<close>

definition exact_of_u64 :: "u64 \<Rightarrow> real" where
  "exact_of_u64 w = real (unat w)"

definition exact_div :: "real \<Rightarrow> real \<Rightarrow> real" where
  "exact_div a b = a / b"

text \<open>A \<open>/proc/self/status\<close> with 5 voluntary and 2 involuntary context switches.\<close>

definition status_5_2 :: string where
  "status_5_2 = ''Name:'' @ [CHR 0x09] @ ''lrc'' @ [CHR 0x0A]
     @ ''voluntary_ctxt_switches:'' @ [CHR 0x09] @ ''5'' @ [CHR 0x0A]
     @ ''nonvoluntary_ctxt_switches:'' @ [CHR 0x09] @ ''2'' @ [CHR 0x0A]"

text \<open>A \<open>/proc/self/stat\<close> with 150 minor and 3 major page faults.\<close>

definition stat_150_3 :: string where
  "stat_150_3 = ''1234 (lrc) R 1 1 1 0 -1 4194304 150 0 3 0 7 1'' @ [CHR 0x0A]"

text \<open>A boundary at which everything can be read, at 1 s on the clock.\<close>

definition begin_readable :: probe where
  "begin_readable = \<lparr> clock = \<lparr> clock_rc = 0, tv_sec = 1, tv_nsec = 0 \<rparr>,
      status_file = Some status_5_2, stat_file = Some stat_150_3, cpu = 0,
      stack_vol = 0, stack_nonvol = 0 \<rparr>"

text \<open>A boundary at 2 s on the clock at which neither pseudo-file can be opened.\<close>

definition end_unreadable :: probe where
  "end_unreadable = \<lparr> clock = \<lparr> clock_rc = 0, tv_sec = 2, tv_nsec = 0 \<rparr>,
      status_file = None, stat_file = None, cpu = 0,
      stack_vol = 0, stack_nonvol = 0 \<rparr>"

text \<open>A failed clock read that leaves 42 ns in the uninitialised \<open>timespec\<close>.\<close>

definition clock_failed :: clock_result where
  "clock_failed = \<lparr> clock_rc = - 1, tv_sec = 0, tv_nsec = 42 \<rparr>"

text \<open>A boundary at 2 s and 500 ns on the clock at which everything can be read.\<close>

definition end_readable :: probe where
  "end_readable = \<lparr> clock = \<lparr> clock_rc = 0, tv_sec = 2, tv_nsec = 500 \<rparr>,
      status_file = Some status_5_2, stat_file = Some stat_150_3, cpu = 0,
      stack_vol = 0, stack_nonvol = 0 \<rparr>"

text \<open>The \<open>cpulist\<close> of a node holding CPUs 0 to 3 and 8 to 11.\<close>

definition cpulist_0_3_8_11 :: string where
  "cpulist_0_3_8_11 = ''0-3,8-11'' @ [CHR 0x0A]"

text \<open>A stand-in for the values of \<open>rand()\<close>, and a buffer of five slots.\<close>

definition rand_example :: "nat \<Rightarrow> nat" where
  "rand_example k = 7 * k + 3"

definition five_slots :: "nat list" where
  "five_slots = [9, 9, 9, 9, 9]"

section \<open>Theorems\<close>

subsection \<open>CPU spin\<close>

text \<open>
  C10. For every iteration count \<open>n\<close>, the phased CPU-spin variant run with exactly one
  phase returns the same 64-bit value as the plain CPU-spin kernel.
\<close>

theorem cpu_spin_long_one_phase: "cpu_spin_long n 1 = cpu_spin n"
proof -
  have "phase_loop n 1 0 0 = phase_loop n 1 1 (spin_loop n 0 0)"
    by (subst phase_loop.simps) simp
  also have "\<dots> = spin_loop n 0 0"
    by (subst phase_loop.simps) simp
  finally show ?thesis
    by (simp add: cpu_spin_long_def cpu_spin_def)
qed

subsection \<open>Hardware performance counters\<close>

lemma set_all_events: "e \<in> set all_events"
  by (cases e) (simp_all add: all_events_def)

lemma concat_map_split:
  assumes "e \<in> set es"
  shows "\<exists>pre post. concat (map f es) = pre @ f e @ post"
proof -
  from assms obtain ys zs where "es = ys @ e # zs"
    by (auto simp: in_set_conv_decomp)
  then have "concat (map f es) = concat (map f ys) @ f e @ concat (map f zs)"
    by simp
  then show ?thesis by blast
qed

lemma perf_counters_start_concat:
  "perf_counters_start pc = concat (map (\<lambda>e. start_counter (event_fd e pc)) all_events)"
  by (simp add: perf_counters_start_def all_events_def)

lemma perf_counters_stop_trace:
  "snd (perf_counters_stop rd pc) =
     concat (map (\<lambda>e. snd (stop_counter (rd e) (event_fd e pc) (event_value e pc))) all_events)"
  by (simp add: perf_counters_stop_def all_events_def split: prod.split)

lemma perf_counters_stop_value:
  "event_value e (fst (perf_counters_stop rd pc)) =
     fst (stop_counter (rd e) (event_fd e pc) (event_value e pc))"
  by (cases e) (simp_all add: perf_counters_stop_def split: prod.split)

lemma perf_counters_stop_fd:
  "event_fd e (fst (perf_counters_stop rd pc)) = event_fd e pc"
  by (cases e) (simp_all add: perf_counters_stop_def split: prod.split)

lemma concat_map_filter_nil:
  "(\<And>x. \<not> P x \<Longrightarrow> f x = []) \<Longrightarrow> (\<And>x. P x \<Longrightarrow> f x = g x) \<Longrightarrow>
   concat (map f xs) = concat (map g (filter P xs))"
  by (induction xs) auto

text \<open>
  C7. For every live event (descriptor not negative): the trace of \<open>start\<close> contains the
  reset of its descriptor immediately followed by the enable; the trace of \<open>stop\<close>
  contains the disable immediately followed by the read, and every read of \<open>stop\<close>
  asks for 8 bytes; after \<open>stop\<close> the event's field is the value read when the read
  returned 8 and 0 otherwise, so a short read gives 0; the read of one event does not
  change another event's field; the descriptor is kept, and the field after a later
  \<open>stop\<close> is decided by that later read alone.
\<close>

theorem live_event_start_stop:
  assumes live: "0 \<le> event_fd e pc"
  shows "(\<exists>pre post. perf_counters_start pc =
            pre @ [Ioctl (event_fd e pc) PERF_EVENT_IOC_RESET,
                   Ioctl (event_fd e pc) PERF_EVENT_IOC_ENABLE] @ post)
       \<and> (\<exists>pre post. snd (perf_counters_stop rd pc) =
            pre @ [Ioctl (event_fd e pc) PERF_EVENT_IOC_DISABLE, Read (event_fd e pc) 8] @ post)
       \<and> (\<forall>fd n. Read fd n \<in> set (snd (perf_counters_stop rd pc)) \<longrightarrow> n = 8)
       \<and> event_value e (fst (perf_counters_stop rd pc)) = (if fst (rd e) = 8 then snd (rd e) else 0)
       \<and> (fst (rd e) < 8 \<longrightarrow> event_value e (fst (perf_counters_stop rd pc)) = 0)
       \<and> (\<forall>e' x. e' \<noteq> e \<longrightarrow>
             event_value e' (fst (perf_counters_stop (rd(e := x)) pc)) =
             event_value e' (fst (perf_counters_stop rd pc)))
       \<and> event_fd e (fst (perf_counters_stop rd pc)) = event_fd e pc
       \<and> (\<forall>rd'. event_value e (fst (perf_counters_stop rd' (fst (perf_counters_stop rd pc)))) =
             (if fst (rd' e) = 8 then snd (rd' e) else 0))"
proof (intro conjI)
  from concat_map_split [OF set_all_events, of "\<lambda>e. start_counter (event_fd e pc)" e]
  show "\<exists>pre post. perf_counters_start pc =
            pre @ [Ioctl (event_fd e pc) PERF_EVENT_IOC_RESET,
                   Ioctl (event_fd e pc) PERF_EVENT_IOC_ENABLE] @ post"
    using live by (simp add: perf_counters_start_concat start_counter_def)
next
  from concat_map_split [OF set_all_events,
      of "\<lambda>e. snd (stop_counter (rd e) (event_fd e pc) (event_value e pc))" e]
  show "\<exists>pre post. snd (perf_counters_stop rd pc) =
            pre @ [Ioctl (event_fd e pc) PERF_EVENT_IOC_DISABLE, Read (event_fd e pc) 8] @ post"
    using live by (simp add: perf_counters_stop_trace stop_counter_def)
next
  show "\<forall>fd n. Read fd n \<in> set (snd (perf_counters_stop rd pc)) \<longrightarrow> n = 8"
    by (auto simp: perf_counters_stop_trace stop_counter_def split: if_splits)
next
  show v: "event_value e (fst (perf_counters_stop rd pc)) = (if fst (rd e) = 8 then snd (rd e) else 0)"
    using live by (simp add: perf_counters_stop_value stop_counter_def)
  then show "fst (rd e) < 8 \<longrightarrow> event_value e (fst (perf_counters_stop rd pc)) = 0"
    by simp
next
  show "\<forall>e' x. e' \<noteq> e \<longrightarrow>
             event_value e' (fst (perf_counters_stop (rd(e := x)) pc)) =
             event_value e' (fst (perf_counters_stop rd pc))"
    by (simp add: perf_counters_stop_value)
next
  show "event_fd e (fst (perf_counters_stop rd pc)) = event_fd e pc"
    by (rule perf_counters_stop_fd)
next
  show "\<forall>rd'. event_value e (fst (perf_counters_stop rd' (fst (perf_counters_stop rd pc)))) =
             (if fst (rd' e) = 8 then snd (rd' e) else 0)"
    using live by (simp add: perf_counters_stop_value perf_counters_stop_fd stop_counter_def)
qed

theorem live_event_start_stop_witness:
  "0 \<le> event_fd HW_CPU_CYCLES (snd (perf_counters_init all_open))
   \<and> fst (short_cycles_read HW_CPU_CYCLES) < 8
   \<and> event_value HW_CPU_CYCLES
        (fst (perf_counters_stop short_cycles_read (snd (perf_counters_init all_open)))) = 0"
proof -
  have h: "0 \<le> event_fd HW_CPU_CYCLES (snd (perf_counters_init all_open))"
    by (simp add: perf_counters_init_def Let_def all_open_def)
  have s: "fst (short_cycles_read HW_CPU_CYCLES) < 8"
    by (simp add: short_cycles_read_def)
  from live_event_start_stop [OF h, of short_cycles_read] s h show ?thesis
    by blast
qed

text \<open>
  C6, as stated, fails: when only the branch-miss event opens, \<open>init\<close> reports
  unavailable and \<open>start\<close> still resets and enables that event.
\<close>

theorem mandatory_failure_not_noop:
  "fst (perf_counters_init only_branch_misses_opens) = - 1
   \<and> perf_counters_start (snd (perf_counters_init only_branch_misses_opens))
       = [Ioctl 3 PERF_EVENT_IOC_RESET, Ioctl 3 PERF_EVENT_IOC_ENABLE]"
  by (simp add: perf_counters_init_def Let_def only_branch_misses_opens_def perf_counters_start_def
      start_counter_def)

text \<open>
  C6, amended. \<open>init\<close> returns -1 exactly when at least one of the two mandatory events
  fails to open and 0 otherwise, stores each descriptor and clears each field;
  \<open>start\<close> and \<open>stop\<close> issue their system calls for exactly the events whose
  descriptor is not negative, in panel order; \<open>stop\<close> leaves the field of an event that
  failed to open as it was, so after \<open>init\<close> it reads 0; \<open>start\<close> and \<open>stop\<close> do
  nothing at all when all six events failed to open.
\<close>

theorem perf_counters_degrade:
  "fst (perf_counters_init oc) = (if oc HW_INSTRUCTIONS < 0 \<or> oc HW_CPU_CYCLES < 0 then - 1 else 0)
   \<and> event_fd e (snd (perf_counters_init oc)) = oc e
   \<and> event_value e (snd (perf_counters_init oc)) = 0
   \<and> perf_counters_start pc =
        concat (map (\<lambda>e. [Ioctl (event_fd e pc) PERF_EVENT_IOC_RESET,
                          Ioctl (event_fd e pc) PERF_EVENT_IOC_ENABLE])
                    (filter (\<lambda>e. 0 \<le> event_fd e pc) all_events))
   \<and> snd (perf_counters_stop rd pc) =
        concat (map (\<lambda>e. [Ioctl (event_fd e pc) PERF_EVENT_IOC_DISABLE, Read (event_fd e pc) 8])
                    (filter (\<lambda>e. 0 \<le> event_fd e pc) all_events))
   \<and> (event_fd e pc < 0 \<longrightarrow>
        event_value e (fst (perf_counters_stop rd pc)) = event_value e pc)
   \<and> (event_fd e (snd (perf_counters_init oc)) < 0 \<longrightarrow>
        event_value e (fst (perf_counters_stop rd (snd (perf_counters_init oc)))) = 0)
   \<and> ((\<forall>e. event_fd e pc < 0) \<longrightarrow>
        perf_counters_start pc = [] \<and> perf_counters_stop rd pc = (pc, []))"
proof (intro conjI)
  show "fst (perf_counters_init oc) = (if oc HW_INSTRUCTIONS < 0 \<or> oc HW_CPU_CYCLES < 0 then - 1 else 0)"
    by (simp add: perf_counters_init_def Let_def)
  show fd: "event_fd e (snd (perf_counters_init oc)) = oc e"
    by (cases e) (simp_all add: perf_counters_init_def Let_def)
  show v0: "event_value e (snd (perf_counters_init oc)) = 0"
    by (cases e) (simp_all add: perf_counters_init_def Let_def)
  show "perf_counters_start pc =
        concat (map (\<lambda>e. [Ioctl (event_fd e pc) PERF_EVENT_IOC_RESET,
                          Ioctl (event_fd e pc) PERF_EVENT_IOC_ENABLE])
                    (filter (\<lambda>e. 0 \<le> event_fd e pc) all_events))"
    unfolding perf_counters_start_concat
    by (rule concat_map_filter_nil) (simp_all add: start_counter_def)
  show "snd (perf_counters_stop rd pc) =
        concat (map (\<lambda>e. [Ioctl (event_fd e pc) PERF_EVENT_IOC_DISABLE, Read (event_fd e pc) 8])
                    (filter (\<lambda>e. 0 \<le> event_fd e pc) all_events))"
    unfolding perf_counters_stop_trace
    by (rule concat_map_filter_nil) (simp_all add: stop_counter_def)
  show keep: "event_fd e pc < 0 \<longrightarrow>
        event_value e (fst (perf_counters_stop rd pc)) = event_value e pc" for pc
    by (simp add: perf_counters_stop_value stop_counter_def)
  show "event_fd e (snd (perf_counters_init oc)) < 0 \<longrightarrow>
        event_value e (fst (perf_counters_stop rd (snd (perf_counters_init oc)))) = 0"
    using keep [of "snd (perf_counters_init oc)"] v0 by simp
  show "(\<forall>e. event_fd e pc < 0) \<longrightarrow>
        perf_counters_start pc = [] \<and> perf_counters_stop rd pc = (pc, [])"
  proof
    assume dead: "\<forall>e. event_fd e pc < 0"
    have "fd_instructions pc < 0" "fd_cycles pc < 0" "fd_l1_dcache_misses pc < 0"
      "fd_llc_misses pc < 0" "fd_branches pc < 0" "fd_branch_misses pc < 0"
      using dead [THEN spec, of HW_INSTRUCTIONS] dead [THEN spec, of HW_CPU_CYCLES]
        dead [THEN spec, of HW_CACHE_L1D_READ_MISS] dead [THEN spec, of HW_CACHE_MISSES]
        dead [THEN spec, of HW_BRANCH_INSTRUCTIONS] dead [THEN spec, of HW_BRANCH_MISSES]
      by simp_all
    then show "perf_counters_start pc = [] \<and> perf_counters_stop rd pc = (pc, [])"
      by (simp add: perf_counters_start_def perf_counters_stop_def start_counter_def
          stop_counter_def)
  qed
qed

theorem perf_counters_degrade_witness:
  "fst (perf_counters_init none_open) = - 1
   \<and> event_fd HW_BRANCH_MISSES (snd (perf_counters_init none_open)) < 0
   \<and> event_value HW_BRANCH_MISSES
        (fst (perf_counters_stop short_cycles_read (snd (perf_counters_init none_open)))) = 0
   \<and> perf_counters_start (snd (perf_counters_init none_open)) = []
   \<and> perf_counters_stop short_cycles_read (snd (perf_counters_init none_open))
        = (snd (perf_counters_init none_open), [])"
proof -
  have dead: "\<forall>e. event_fd e (snd (perf_counters_init none_open)) < 0"
  proof
    fix e show "event_fd e (snd (perf_counters_init none_open)) < 0"
      by (cases e) (simp_all add: perf_counters_init_def Let_def none_open_def)
  qed
  have r: "none_open HW_INSTRUCTIONS < 0 \<or> none_open HW_CPU_CYCLES < 0"
    by (simp add: none_open_def)
  have d: "event_fd HW_BRANCH_MISSES (snd (perf_counters_init none_open)) < 0"
    using dead by blast
  note t = perf_counters_degrade [of none_open HW_BRANCH_MISSES
      "snd (perf_counters_init none_open)" short_cycles_read]
  from t r have a: "fst (perf_counters_init none_open) = - 1"
    by presburger
  from t d have v: "event_value HW_BRANCH_MISSES
        (fst (perf_counters_stop short_cycles_read (snd (perf_counters_init none_open)))) = 0"
    by blast
  from t dead have s: "perf_counters_start (snd (perf_counters_init none_open)) = []
      \<and> perf_counters_stop short_cycles_read (snd (perf_counters_init none_open))
          = (snd (perf_counters_init none_open), [])"
    by blast
  from a d v s show ?thesis
    by blast
qed

text \<open>
  C8. For every counter panel, the IPC column is the quotient of instructions by cycles
  and the branch-miss-rate column the quotient of branch misses by branches, and each
  is the zero constant when its denominator is 0. The floating-point conversion,
  division and zero are parameters.
\<close>

theorem derived_rates:
  "csv_ipc to_double fdiv fzero pc =
     (if cycles pc = 0 then fzero else fdiv (to_double (instructions pc)) (to_double (cycles pc)))
   \<and> csv_branch_miss_rate to_double fdiv fzero pc =
     (if branches pc = 0 then fzero
      else fdiv (to_double (branch_misses pc)) (to_double (branches pc)))"
  by (simp add: csv_ipc_def csv_branch_miss_rate_def word_greater_zero_iff)


theorem derived_rates_witness:
  "csv_ipc exact_of_u64 exact_div 0 (snd (perf_counters_init all_open)) = 0
   \<and> csv_branch_miss_rate exact_of_u64 exact_div 0
        (fst (perf_counters_stop short_cycles_read (snd (perf_counters_init all_open)))) = 1"
  using derived_rates [of exact_of_u64 exact_div 0 "snd (perf_counters_init all_open)"]
    derived_rates [of exact_of_u64 exact_div 0
      "fst (perf_counters_stop short_cycles_read (snd (perf_counters_init all_open)))"]
  by (simp add: perf_counters_init_def Let_def all_open_def perf_counters_stop_def
      stop_counter_def short_cycles_read_def exact_of_u64_def exact_div_def)

theorem cpu_spin_long_one_phase_witness: "cpu_spin_long 3 1 = cpu_spin 3"
  using cpu_spin_long_one_phase [of 3] .

subsection \<open>Evaluating the readers on the named inputs\<close>

lemma read_line_pos:
  "0 < k \<Longrightarrow> read_line k (c # cs) =
     (if c = CHR 0x0A then ([c], cs) else (let (l, r) = read_line (k - 1) cs in (c # l, r)))"
  by (cases k) simp_all

lemma read_line_Nil: "read_line k [] = ([], [])"
  by (cases k) simp_all

lemma status_eval: "read_ctxt_switches (Some status_5_2) (0, 0) = (5, 2)"
  by (simp add: read_ctxt_switches_def status_5_2_def scan_status.simps fgets_def
      read_line_pos sscanf_lu_def scan_number_def isspace_c_def isdigit_c_def
      digit_val_def to_ulong_def)

lemma funpow_9: "(f ^^ 9) x = f (f (f (f (f (f (f (f (f x))))))))"
  by (simp add: eval_nat_numeral)

lemma fgets_stat_150_3: "fgets 1024 stat_150_3 = Some (stat_150_3, [])"
  by (simp add: stat_150_3_def fgets_def read_line_pos read_line_Nil)

lemma skip_nine_stat_150_3: "(skip_field ^^ 9) stat_150_3 = ''150 0 3 0 7 1'' @ [CHR 0x0A]"
  by (simp add: stat_150_3_def funpow_9 skip_field_def)

lemma strtoul_minflt_150: "strtoul (''150 0 3 0 7 1'' @ [CHR 0x0A]) = (150, '' 0 3 0 7 1'' @ [CHR 0x0A])"
  by (simp add: strtoul_def scan_number_def isspace_c_def isdigit_c_def
      digit_val_def to_ulong_def)

lemma skip_cminflt: "skip_field (tl ('' 0 3 0 7 1'' @ [CHR 0x0A])) = ''3 0 7 1'' @ [CHR 0x0A]"
  by (simp add: skip_field_def)

lemma strtoul_majflt_3: "fst (strtoul (''3 0 7 1'' @ [CHR 0x0A])) = 3"
  by (simp add: strtoul_def scan_number_def isspace_c_def isdigit_c_def
      digit_val_def to_ulong_def)

lemma stat_eval: "read_page_faults (Some stat_150_3) = (150, 3)"
proof -
  have "read_page_faults (Some stat_150_3) =
      (fst (strtoul (''150 0 3 0 7 1'' @ [CHR 0x0A])),
       fst (strtoul (skip_field (tl ('' 0 3 0 7 1'' @ [CHR 0x0A])))))"
    unfolding read_page_faults_def Let_def
    by (simp only: option.case fgets_stat_150_3 prod.case skip_nine_stat_150_3 strtoul_minflt_150 split_def fst_conv snd_conv) simp
  then show ?thesis
    by (simp only: skip_cminflt strtoul_majflt_3 strtoul_minflt_150 fst_conv)
qed

subsection \<open>Metric record\<close>

lemma metrics_finish_timestamp:
  "timestamp_ns (metrics_finish env m) = get_timestamp_ns (clock env)"
  by (simp add: metrics_finish_def Let_def split: prod.split)

lemma metrics_finish_runtime:
  "runtime_ns (metrics_finish env m) = get_timestamp_ns (clock env) - timestamp_ns m"
  by (simp add: metrics_finish_def Let_def split: prod.split)

lemma metrics_init_timestamp:
  "timestamp_ns (metrics_init env) = get_timestamp_ns (clock env)"
  by (simp add: metrics_init_def Let_def split: prod.split)

lemma metrics_init_begin_readable:
  "metrics_init begin_readable =
     \<lparr> timestamp_ns = 1000000000, runtime_ns = 0,
       voluntary_ctxt_switches = 5, nonvoluntary_ctxt_switches = 2,
       minor_page_faults = 150, major_page_faults = 3, start_cpu = 0, end_cpu = 0 \<rparr>"
  by (simp add: metrics_init_def begin_readable_def status_eval stat_eval get_timestamp_ns_def)

lemma metrics_finish_end_unreadable:
  "metrics_finish end_unreadable m =
     m\<lparr> runtime_ns := 2000000000 - timestamp_ns m,
       voluntary_ctxt_switches := 0 - voluntary_ctxt_switches m,
       nonvoluntary_ctxt_switches := 0 - nonvoluntary_ctxt_switches m,
       minor_page_faults := 0 - minor_page_faults m,
       major_page_faults := 0 - major_page_faults m,
       end_cpu := 0, timestamp_ns := 2000000000 \<rparr>"
  by (simp add: metrics_finish_def end_unreadable_def read_ctxt_switches_def
      read_page_faults_def get_timestamp_ns_def)

lemma metrics_finish_end_readable:
  "metrics_finish end_readable m =
     m\<lparr> runtime_ns := 2000000500 - timestamp_ns m,
       voluntary_ctxt_switches := 5 - voluntary_ctxt_switches m,
       nonvoluntary_ctxt_switches := 2 - nonvoluntary_ctxt_switches m,
       minor_page_faults := 150 - minor_page_faults m,
       major_page_faults := 3 - major_page_faults m,
       end_cpu := 0, timestamp_ns := 2000000500 \<rparr>"
  by (simp add: metrics_finish_def end_readable_def status_eval stat_eval get_timestamp_ns_def)

text \<open>
  C1. The counters are read at 5, 2, 150 and 3 at the start of the iteration and
  neither pseudo-file can be opened at its end: the four counter columns of the
  emitted record are the wrapped differences \<open>0 - 5\<close>, \<open>0 - 2\<close>, \<open>0 - 150\<close> and
  \<open>0 - 3\<close> in 64 bits, not 0.
\<close>

theorem failed_end_read_wraps:
  "metrics_print_csv (metrics_finish end_unreadable (metrics_init begin_readable)) =
     [2000000000, 1000000000, 18446744073709551611, 18446744073709551614,
      18446744073709551466, 18446744073709551613, 0, 0]"
  by (simp add: metrics_init_begin_readable metrics_finish_end_unreadable metrics_print_csv_def)

text \<open>
  C2, as stated, fails: the record that is emitted after an iteration that starts at
  1 s and ends at 2 s and 500 ns carries the end capture in \<open>timestamp_ns\<close>.
\<close>

theorem emitted_timestamp_is_not_start:
  "timestamp_ns (metrics_init begin_readable) = 1000000000
   \<and> timestamp_ns (metrics_finish end_readable (metrics_init begin_readable)) = 2000000500
   \<and> hd (metrics_print_csv (metrics_finish end_readable (metrics_init begin_readable)))
       = 2000000500"
  by (simp add: metrics_init_begin_readable metrics_finish_end_readable metrics_print_csv_def)

text \<open>
  C2, amended. \<open>begin\<close> stores its clock capture in \<open>timestamp_ns\<close>; \<open>end\<close> sets
  \<open>runtime_ns\<close> to its own capture minus the stored one (in 64 bits) and then replaces
  \<open>timestamp_ns\<close> by its own capture, which is what the first emitted column shows.
\<close>

theorem emitted_timestamp_is_end_capture:
  "timestamp_ns (metrics_init b) = get_timestamp_ns (clock b)
   \<and> timestamp_ns (metrics_finish e (metrics_init b)) = get_timestamp_ns (clock e)
   \<and> runtime_ns (metrics_finish e (metrics_init b))
       = get_timestamp_ns (clock e) - get_timestamp_ns (clock b)
   \<and> metrics_print_csv (metrics_finish e (metrics_init b)) ! 0
       = uint (get_timestamp_ns (clock e))
   \<and> metrics_print_csv (metrics_finish e (metrics_init b)) ! 1
       = uint (get_timestamp_ns (clock e) - get_timestamp_ns (clock b))"
  by (simp add: metrics_finish_timestamp metrics_finish_runtime metrics_init_timestamp
      metrics_print_csv_def)

theorem emitted_timestamp_is_end_capture_witness:
  "metrics_print_csv (metrics_finish end_readable (metrics_init begin_readable)) ! 0 = 2000000500
   \<and> metrics_print_csv (metrics_finish end_readable (metrics_init begin_readable)) ! 1
       = 1000000500"
proof -
  have "get_timestamp_ns (clock end_readable) = 2000000500"
    "get_timestamp_ns (clock begin_readable) = 1000000000"
    by (simp_all add: end_readable_def begin_readable_def get_timestamp_ns_def)
  with emitted_timestamp_is_end_capture [of begin_readable end_readable]
  show ?thesis by simp
qed

text \<open>
  C4, as stated, fails: a clock read that fails and leaves 42 ns in the buffer yields
  the timestamp 42, which \<open>begin\<close> stores in the record like any other.
\<close>

theorem failed_clock_read_absorbed:
  "clock_rc clock_failed = - 1
   \<and> get_timestamp_ns clock_failed = 42
   \<and> timestamp_ns (metrics_init (begin_readable\<lparr> clock := clock_failed \<rparr>)) = 42"
  by (simp add: clock_failed_def get_timestamp_ns_def metrics_init_timestamp)

text \<open>
  C4, amended. The timing primitive has no failure path: whatever the status of the
  clock read, it returns seconds times \<open>10\<^sup>9\<close> plus nanoseconds, in 64 bits, of the
  contents of the \<open>timespec\<close> after the call.
\<close>

theorem get_timestamp_ns_ignores_status:
  "get_timestamp_ns (c\<lparr> clock_rc := r \<rparr>) = get_timestamp_ns c
   \<and> get_timestamp_ns c = word_of_int (tv_sec c * 1000000000 + tv_nsec c)"
  by (simp add: get_timestamp_ns_def)

theorem get_timestamp_ns_ignores_status_witness:
  "get_timestamp_ns (clock_failed\<lparr> clock_rc := 0 \<rparr>) = get_timestamp_ns clock_failed
   \<and> get_timestamp_ns clock_failed = 42"
  using get_timestamp_ns_ignores_status [where c = clock_failed and r = 0]
  by (simp add: clock_failed_def)

subsection \<open>NUMA CPU list\<close>

lemma fgets_cpulist: "fgets 256 cpulist_0_3_8_11 = Some (cpulist_0_3_8_11, [])"
  by (simp add: cpulist_0_3_8_11_def fgets_def read_line_pos)

lemma scan_cpulist: "sscanf_d_dash_d cpulist_0_3_8_11 = [0, 3]"
  by (simp add: cpulist_0_3_8_11_def sscanf_d_dash_d_def scan_d_def scan_number_def
      isspace_c_def isdigit_c_def digit_val_def)

lemma mask_0_3: "cpu_range_mask 0 3 0 = Some 15"
  by (simp add: cpu_range_mask.simps)

lemma render_0_3_8_11: "render_cpulist [Range 0 3, Range 8 11] = cpulist_0_3_8_11"
  by (simp add: cpulist_0_3_8_11_def dec.simps digit_char_def)

lemma digit_char_props:
  assumes "d < 10"
  shows "isdigit_c (digit_char d)" "digit_val (digit_char d) = d"
    "digit_char d \<noteq> CHR 0x0A"
proof -
  from assms have "d = 0 \<or> d = 1 \<or> d = 2 \<or> d = 3 \<or> d = 4 \<or> d = 5 \<or> d = 6 \<or> d = 7
      \<or> d = 8 \<or> d = 9"
    by arith
  then show "isdigit_c (digit_char d)" "digit_val (digit_char d) = d"
    "digit_char d \<noteq> CHR 0x0A"
    by (elim disjE; simp add: digit_char_def isdigit_c_def digit_val_def)+
qed

lemma isdigit_not_space_sign:
  assumes "isdigit_c c"
  shows "\<not> isspace_c c" "c \<noteq> CHR ''-''" "c \<noteq> CHR ''+''"
  using assms by (auto simp: isdigit_c_def isspace_c_def)

lemma not_isdigit_sep:
  "\<not> isdigit_c CHR ''-''" "\<not> isdigit_c CHR '',''" "\<not> isdigit_c CHR 0x0A"
  by (simp_all add: isdigit_c_def)

lemma scan_digits_dec:
  "scan_digits acc (dec n @ r) = scan_digits (acc * 10 ^ length (dec n) + n) r"
proof (induction n arbitrary: acc r rule: dec.induct)
  case (1 n)
  show ?case
  proof (cases "n < 10")
    case True
    then have "dec n = [digit_char n]"
      by (subst dec.simps) simp
    with True show ?thesis
      by (simp add: digit_char_props)
  next
    case False
    then have d: "dec n = dec (n div 10) @ [digit_char (n mod 10)]"
      by (subst dec.simps) simp
    have m: "n mod 10 < 10"
      by simp
    have "scan_digits acc (dec n @ r) =
        scan_digits (acc * 10 ^ length (dec (n div 10)) + n div 10) (digit_char (n mod 10) # r)"
      using "1.IH" [OF False, of acc "digit_char (n mod 10) # r"] by (simp add: d)
    also have "\<dots> = scan_digits
        ((acc * 10 ^ length (dec (n div 10)) + n div 10) * 10 + n mod 10) r"
      using digit_char_props [OF m] by simp
    also have "(acc * 10 ^ length (dec (n div 10)) + n div 10) * 10 + n mod 10
        = acc * 10 ^ length (dec n) + n"
      by (simp add: d algebra_simps)
    finally show ?thesis .
  qed
qed

lemma scan_digits_stop:
  "r = [] \<or> \<not> isdigit_c (hd r) \<Longrightarrow> scan_digits a r = (a, r)"
  by (cases r) auto

lemma dec_hd: "\<exists>c ds. dec n = c # ds \<and> isdigit_c c"
proof (induction n rule: dec.induct)
  case (1 n)
  show ?case
  proof (cases "n < 10")
    case True
    then show ?thesis
      by (subst dec.simps) (simp add: digit_char_props)
  next
    case False
    with "1.IH" obtain c ds where "dec (n div 10) = c # ds" "isdigit_c c"
      by blast
    with False show ?thesis
      by (subst dec.simps) simp
  qed
qed

lemma dec_no_newline: "CHR 0x0A \<notin> set (dec n)"
proof (induction n rule: dec.induct)
  case (1 n)
  have m: "n mod 10 < 10"
    by simp
  show ?case
  proof (cases "n < 10")
    case True
    with digit_char_props(3) [of n] show ?thesis
      by (subst dec.simps) auto
  next
    case False
    with "1.IH" digit_char_props(3) [OF m] show ?thesis
      by (subst dec.simps) auto
  qed
qed

lemma dec_length: "0 < k \<Longrightarrow> n < 10 ^ k \<Longrightarrow> length (dec n) \<le> k"
proof (induction n arbitrary: k rule: dec.induct)
  case (1 n)
  show ?case
  proof (cases "n < 10")
    case True
    with "1.prems" show ?thesis
      by (subst dec.simps) simp
  next
    case False
    obtain j where k: "k = Suc j"
      using "1.prems"(1) by (cases k) auto
    with False "1.prems"(2) have "0 < j"
      by (cases j) auto
    moreover from k "1.prems"(2) have "n div 10 < 10 ^ j"
      by (simp add: div_less_iff_less_mult mult.commute)
    ultimately have "length (dec (n div 10)) \<le> j"
      using "1.IH" [OF False] by blast
    with False k show ?thesis
      by (subst dec.simps) simp
  qed
qed

lemma scan_number_dec:
  assumes "r = [] \<or> \<not> isdigit_c (hd r)"
  shows "scan_number (dec n @ r) = Some (False, n, r)"
proof -
  obtain c ds where e: "dec n = c # ds" and c: "isdigit_c c"
    using dec_hd by blast
  have s: "scan_digits 0 (c # ds @ r) = (n, r)"
    using scan_digits_dec [of 0 n r] scan_digits_stop [OF assms, of n]
    by (simp only: e append_Cons) simp
  have "scan_number (c # ds @ r) = Some (False, n, r)"
    unfolding scan_number_def Let_def
    using isdigit_not_space_sign [OF c] c
    by (simp add: s del: scan_digits.simps)
  then show ?thesis
    by (simp add: e)
qed

lemma scan_d_dec:
  "r = [] \<or> \<not> isdigit_c (hd r) \<Longrightarrow> scan_d (dec n @ r) = Some (int n, r)"
  by (simp add: scan_d_def scan_number_dec)

lemma read_line_prefix:
  "CHR 0x0A \<notin> set xs \<Longrightarrow> length xs < k \<Longrightarrow>
     \<exists>zs. fst (read_line k (xs @ c # ys)) = xs @ c # zs"
proof (induction xs arbitrary: k)
  case Nil
  then show ?case
    by (simp add: read_line_pos split: prod.split)
next
  case (Cons x xs)
  from Cons.prems have "CHR 0x0A \<notin> set xs" "length xs < k - 1" "0 < k" "x \<noteq> CHR 0x0A"
    by auto
  with Cons.IH [of "k - 1"] show ?case
    by (auto simp: read_line_pos split: prod.split)
qed

lemma cpu_range_mask_bits:
  "0 \<le> i \<Longrightarrow>
     \<exists>m. cpu_range_mask i l m0 = Some m
       \<and> (\<forall>j. bit m j \<longleftrightarrow> bit m0 j \<or> (nat i \<le> j \<and> int j \<le> l \<and> j < 64))"
proof (induction i l m0 rule: cpu_range_mask.induct)
  case (1 i l m0)
  show ?case
  proof (cases "i \<le> l \<and> i < 64")
    case True
    with "1.prems" have nn: "\<not> i < 0" and "0 \<le> i + 1"
      by simp_all
    with "1.IH" [OF True nn] obtain m where
      m: "cpu_range_mask (i + 1) l (m0 OR push_bit (nat i) 1) = Some m"
      and b: "\<And>j. bit m j \<longleftrightarrow> bit (m0 OR push_bit (nat i) 1) j
          \<or> (nat (i + 1) \<le> j \<and> int j \<le> l \<and> j < 64)"
      by blast
    have "nat i < 64"
      using True "1.prems" by linarith
    then have s: "bit (push_bit (nat i) (1 :: u64)) j \<longleftrightarrow> j = nat i" for j
      by (auto simp: bit_exp_iff)
    have "cpu_range_mask i l m0 = Some m"
      using True nn m by (subst cpu_range_mask.simps) simp
    moreover have "bit m j \<longleftrightarrow> bit m0 j \<or> (nat i \<le> j \<and> int j \<le> l \<and> j < 64)" for j
    proof -
      have "bit m j \<longleftrightarrow> bit m0 j \<or> j = nat i \<or> (nat (i + 1) \<le> j \<and> int j \<le> l \<and> j < 64)"
        using b [of j] s [of j] by (simp add: bit_or_iff)
      moreover have "j = nat i \<or> (nat (i + 1) \<le> j \<and> int j \<le> l \<and> j < 64)
          \<longleftrightarrow> (nat i \<le> j \<and> int j \<le> l \<and> j < 64)"
        using True "1.prems" by auto
      ultimately show ?thesis
        by blast
    qed
    ultimately show ?thesis
      by blast
  next
    case False
    have "cpu_range_mask i l m0 = Some m0"
      by (subst cpu_range_mask.simps) (simp only: False if_False)
    moreover have "\<not> (nat i \<le> j \<and> int j \<le> l \<and> j < 64)" for j
      using False "1.prems" by auto
    ultimately show ?thesis
      by blast
  qed
qed

text \<open>
  C5, as stated, fails: for the file \<open>0-3,8-11\<close> the mask returned is 15, CPUs 0 to 3;
  CPU 8 of the second range is not in it.
\<close>

theorem cpulist_second_range_dropped:
  "render_cpulist [Range 0 3, Range 8 11] = cpulist_0_3_8_11
   \<and> numa_node_to_cpus (Some cpulist_0_3_8_11) = Some 15
   \<and> \<not> bit (15 :: u64) 8"
proof (intro conjI)
  show "render_cpulist [Range 0 3, Range 8 11] = cpulist_0_3_8_11"
    by (rule render_0_3_8_11)
  show "numa_node_to_cpus (Some cpulist_0_3_8_11) = Some 15"
    by (simp add: numa_node_to_cpus_def fgets_cpulist parse_cpulist_def
        scan_cpulist mask_0_3 int_range_def)
  show "\<not> bit (15 :: u64) 8"
    by simp
qed

lemma render_cpulist_split:
  "\<exists>c ys. render_cpulist (e # es) = render_entry e @ c # ys \<and> \<not> isdigit_c c \<and> c \<noteq> CHR ''-''"
proof (cases es)
  case Nil
  then show ?thesis
    by (simp add: not_isdigit_sep)
next
  case (Cons e' es')
  then show ?thesis
    by (simp add: not_isdigit_sep)
qed

lemma dec_length_int: "n < 2 ^ 31 \<Longrightarrow> length (dec n) \<le> 10"
  by (rule dec_length) simp_all

lemma render_entry_line:
  assumes "entry_bound e < 2 ^ 31"
  shows "CHR 0x0A \<notin> set (render_entry e)" "length (render_entry e) < 255"
proof -
  show "CHR 0x0A \<notin> set (render_entry e)"
    by (cases e) (simp_all add: dec_no_newline)
  show "length (render_entry e) < 255"
  proof (cases e)
    case (Single a)
    with assms dec_length_int [of a] show ?thesis
      by simp
  next
    case (Range a b)
    with assms dec_length_int [of a] dec_length_int [of b] show ?thesis
      by simp
  qed
qed

lemma parse_cpulist_first_entry:
  assumes bound: "entry_bound e < 2 ^ 31" and sep: "\<not> isdigit_c c" "c \<noteq> CHR ''-''"
  shows "\<exists>m. parse_cpulist (render_entry e @ c # zs) = Some m
           \<and> (\<forall>i. bit m i \<longleftrightarrow> i < 64 \<and> cpu_in_entry i e)"
proof (cases e)
  case (Single a)
  have stop: "c # zs = [] \<or> \<not> isdigit_c (hd (c # zs))"
    using sep by simp
  have a: "int_range (int a)"
    using bound Single by (simp add: int_range_def)
  have two: "sscanf_d_dash_d (dec a @ c # zs) = [int a]"
    using sep by (simp add: sscanf_d_dash_d_def scan_d_dec [OF stop])
  have one: "sscanf_d (dec a @ c # zs) = [int a]"
    by (simp add: sscanf_d_def scan_d_dec [OF stop])
  have p: "parse_cpulist (dec a @ c # zs) = Some (if a < 64 then push_bit a 1 else 0)"
    using a by (simp add: parse_cpulist_def two one)
  have "bit (if a < 64 then push_bit a (1 :: u64) else 0) i \<longleftrightarrow> i < 64 \<and> i = a" for i
    by (auto simp: bit_exp_iff)
  with p Single show ?thesis
    by simp
next
  case (Range a b)
  have stop: "c # zs = [] \<or> \<not> isdigit_c (hd (c # zs))"
    using sep by simp
  have dash: "CHR ''-'' # dec b @ c # zs = [] \<or> \<not> isdigit_c (hd (CHR ''-'' # dec b @ c # zs))"
    by (simp add: not_isdigit_sep)
  have r: "int_range (int a)" "int_range (int b)"
    using bound Range by (simp_all add: int_range_def)
  have two: "sscanf_d_dash_d (dec a @ CHR ''-'' # dec b @ c # zs) = [int a, int b]"
    by (simp add: sscanf_d_dash_d_def scan_d_dec [OF dash] scan_d_dec [OF stop])
  have p: "parse_cpulist (dec a @ CHR ''-'' # dec b @ c # zs) = cpu_range_mask (int a) (int b) 0"
    using r by (simp add: parse_cpulist_def two)
  obtain m where m: "cpu_range_mask (int a) (int b) 0 = Some m"
    and bits: "\<And>j. bit m j \<longleftrightarrow> bit (0 :: u64) j \<or> (nat (int a) \<le> j \<and> int j \<le> int b \<and> j < 64)"
    using cpu_range_mask_bits [of "int a" "int b" 0] by auto
  have "bit m i \<longleftrightarrow> i < 64 \<and> a \<le> i \<and> i \<le> b" for i
    using bits [of i] by auto
  with p m Range show ?thesis
    by simp
qed

text \<open>
  C5, amended. For a \<open>cpulist\<close> file of comma-separated entries whose first entry is
  the singleton \<open>A\<close> or the range \<open>A-B\<close> (numbers that fit an \<open>int\<close>),
  \<open>numa_node_to_cpus\<close> returns the mask whose bits are exactly the CPUs below 64 of
  that first entry; every later entry is ignored.
\<close>

theorem numa_node_to_cpus_first_entry:
  assumes "entry_bound e < 2 ^ 31"
  shows "\<exists>m. numa_node_to_cpus (Some (render_cpulist (e # es))) = Some m
           \<and> (\<forall>i. bit m i \<longleftrightarrow> i < 64 \<and> cpu_in_entry i e)"
proof -
  obtain c ys where split: "render_cpulist (e # es) = render_entry e @ c # ys"
    and sep: "\<not> isdigit_c c" "c \<noteq> CHR ''-''"
    using render_cpulist_split by blast
  obtain zs where "fst (read_line 255 (render_entry e @ c # ys)) = render_entry e @ c # zs"
    using read_line_prefix [OF render_entry_line [OF assms]] by blast
  then obtain rest where
    "fgets 256 (render_cpulist (e # es)) = Some (render_entry e @ c # zs, rest)"
    by (cases "read_line 255 (render_entry e @ c # ys)") (simp add: fgets_def split)
  then have "numa_node_to_cpus (Some (render_cpulist (e # es)))
      = parse_cpulist (render_entry e @ c # zs)"
    by (simp add: numa_node_to_cpus_def)
  with parse_cpulist_first_entry [OF assms sep, of zs] show ?thesis
    by simp
qed

theorem numa_node_to_cpus_first_entry_witness:
  "entry_bound (Range 0 3) < 2 ^ 31
   \<and> (\<exists>m. numa_node_to_cpus (Some cpulist_0_3_8_11) = Some m \<and> bit m 3 \<and> \<not> bit m 8)"
proof -
  have h: "entry_bound (Range 0 3) < 2 ^ 31"
    by simp
  from numa_node_to_cpus_first_entry [OF h, of "[Range 8 11]"] obtain m where
    "numa_node_to_cpus (Some (render_cpulist [Range 0 3, Range 8 11])) = Some m"
    and b: "\<And>i. bit m i \<longleftrightarrow> i < 64 \<and> cpu_in_entry i (Range 0 3)"
    by blast
  then have "numa_node_to_cpus (Some cpulist_0_3_8_11) = Some m"
    by (simp only: render_0_3_8_11)
  moreover have "bit m 3" "\<not> bit m 8"
    by (simp_all add: b)
  ultimately show ?thesis
    using h by blast
qed

end
